theory Spec2Isabelle
  imports Main "HOL-Library.Sublist" "HOL-Library.Log_Nat"
begin

section \<open>Book collection service (lecture\_5/book\_api/main.py)\<close>

text \<open>
  Strings are lists of 8-bit characters, so the model covers ASCII text. Python's
  unbounded integers are \<open>int\<close>. A column or field that may be \<open>None\<close> is an
  \<open>option\<close>.
\<close>

subsection \<open>Schemas and the table\<close>

text \<open>
  A member of a JSON request body: left out, given as \<open>null\<close>, or given with a value of
  the declared type.
\<close>

datatype 'a field = Absent | Null | Given 'a

record body =
  title :: "string field"
  author :: "string field"
  year :: "int field"

record BookCreate =
  title :: string
  author :: string
  year :: "int option"

record BookUpdate =
  title :: "string option"
  author :: "string option"
  year :: "int option"

text \<open>The row of table \<open>books\<close>; \<open>id_col\<close> is the column \<open>id\<close>, the primary key.\<close>

record BookDB =
  id_col :: int
  title :: string
  author :: string
  year :: "int option"

text \<open>
  The two failures of the service: the framework's answer to a body that does not fit
  the schema (status 422), and the \<open>HTTPException\<close> the handlers raise.
\<close>

datatype failure = RequestValidationError | HTTPException nat string


text \<open>
  How a field declared \<open>Optional[T] = None\<close> is read: a member left out takes the
  default \<open>None\<close>, and \<open>null\<close> is the value \<open>None\<close>.
\<close>

fun optional :: "'a field \<Rightarrow> 'a option" where
  "optional Absent = None"
| "optional Null = None"
| "optional (Given v) = Some v"


definition validate_BookUpdate :: "body \<Rightarrow> BookUpdate" where
  "validate_BookUpdate b =
     \<lparr>BookUpdate.title = optional (body.title b),
      author = optional (body.author b),
      year = optional (body.year b)\<rparr>"

subsection \<open>The persistence layer\<close>

text \<open>
  The table is the list of its rows, a new row last. Column \<open>id\<close> is declared
  \<open>Column(Integer, primary_key=True)\<close> on a SQLite engine, without the
  \<open>sqlite_autoincrement\<close> flag: a row inserted with no id gets one more than the largest
  id of the table, and 1 in an empty table. (The engine leaves this rule only when the
  largest id is \<open>2^63 - 1\<close>, which no run reaches.)
\<close>

definition new_rowid :: "BookDB list \<Rightarrow> int" where
  "new_rowid db = (if db = [] then 1 else Max (set (map id_col db)) + 1)"




subsection \<open>The endpoints\<close>

text \<open>
  Each handler takes the table and returns its answer with the table as committed. The
  outcome is \<open>Inl\<close> of the failure, or \<open>Inr\<close> of the body of the answer.
\<close>

definition create_book :: "BookCreate \<Rightarrow> BookDB list \<Rightarrow> BookDB \<times> BookDB list" where
  "create_book book db =
     (let db_book = \<lparr>id_col = new_rowid db, title = BookCreate.title book,
                      author = BookCreate.author book, year = BookCreate.year book\<rparr>
      in (db_book, db @ [db_book]))"






definition update_book ::
  "int \<Rightarrow> BookUpdate \<Rightarrow> BookDB list \<Rightarrow> (failure + BookDB) \<times> BookDB list" where
  "update_book book_id book_update db =
     (case find (\<lambda>b. id_col b = book_id) db of
        None \<Rightarrow> (Inl (HTTPException 404 ''Book not found''), db)
      | Some db_book \<Rightarrow>
          (let db_book = (case BookUpdate.title book_update of
                            Some t \<Rightarrow> db_book\<lparr>BookDB.title := t\<rparr> | None \<Rightarrow> db_book);
               db_book = (case BookUpdate.author book_update of
                            Some a \<Rightarrow> db_book\<lparr>BookDB.author := a\<rparr> | None \<Rightarrow> db_book);
               db_book = (case BookUpdate.year book_update of
                            Some y \<Rightarrow> db_book\<lparr>BookDB.year := Some y\<rparr> | None \<Rightarrow> db_book)
           in (Inr db_book, map (\<lambda>b. if id_col b = book_id then db_book else b) db)))"


definition delete_book :: "int \<Rightarrow> BookDB list \<Rightarrow> (failure + string) \<times> BookDB list" where
  "delete_book book_id db =
     (case find (\<lambda>b. id_col b = book_id) db of
        None \<Rightarrow> (Inl (HTTPException 404 ''Book not found''), db)
      | Some db_book \<Rightarrow>
          (Inr ''Book deleted successfully'', filter (\<lambda>b. id_col b \<noteq> id_col db_book) db))"

subsection \<open>Notions of the specification\<close>




text \<open>The ids present in a table.\<close>

definition ids :: "BookDB list \<Rightarrow> int set" where
  "ids db = set (map id_col db)"

text \<open>
  A partial update as the specification words it: a field the request supplies is
  overwritten, every other field, and the id, keeps its value.
\<close>

definition overwritten :: "BookUpdate \<Rightarrow> BookDB \<Rightarrow> BookDB" where
  "overwritten u old =
    \<lparr>id_col = id_col old,
     title = (case BookUpdate.title u of Some t \<Rightarrow> t | None \<Rightarrow> BookDB.title old),
     author = (case BookUpdate.author u of Some a \<Rightarrow> a | None \<Rightarrow> BookDB.author old),
     year = (case BookUpdate.year u of Some y \<Rightarrow> Some y | None \<Rightarrow> BookDB.year old)\<rparr>"


text \<open>Requests that write, and the table a run of them leaves.\<close>

datatype request = Create BookCreate | Update int BookUpdate | Delete int

fun serve :: "request \<Rightarrow> BookDB list \<Rightarrow> BookDB list" where
  "serve (Create book) db = snd (create_book book db)"
| "serve (Update book_id book_update) db = snd (update_book book_id book_update db)"
| "serve (Delete book_id) db = snd (delete_book book_id db)"

fun serve_all :: "request list \<Rightarrow> BookDB list \<Rightarrow> BookDB list" where
  "serve_all [] db = db"
| "serve_all (r # rs) db = serve_all rs (serve r db)"

section \<open>Student grade analyzer (lecture\_3/main.py)\<close>

subsection \<open>Built-in functions of the language\<close>








text \<open>\<open>str(n)\<close> for an integer: its decimal digits, after a minus sign when negative.\<close>

fun str_nat :: "nat \<Rightarrow> string" where
  "str_nat n = (if n < 10 then [''0123456789'' ! n] else str_nat (n div 10) @ [''0123456789'' ! (n mod 10)])"



subsection \<open>Floating-point numbers\<close>

text \<open>
  A \<open>float\<close> is an IEEE 754 binary64 number; a finite one is modelled by the rational
  number it stands for. Every operation gives the exact result rounded to the nearest
  binary64 number, to the one with the even significand when two are equally near.
\<close>

text \<open>The nearest integer, the even one of two equally near.\<close>

definition round_half_even :: "rat \<Rightarrow> int" where
  "round_half_even x =
     (let f = \<lfloor>x\<rfloor>; d = x - of_int f in
      if d < 1 / 2 then f else if 1 / 2 < d then f + 1 else if even f then f else f + 1)"

text \<open>
  The binade of \<open>x \<noteq> 0\<close>: the \<open>k\<close> with \<open>2^k \<le> |x| < 2^(k+1)\<close>, found from the lengths in
  bits of numerator and denominator.
\<close>

definition binade :: "rat \<Rightarrow> int" where
  "binade x =
     (let (a, b) = quotient_of x; k = bitlen \<bar>a\<bar> - bitlen b in
      if 2 powi k \<le> \<bar>x\<bar> then k else k - 1)"

text \<open>
  Rounding to binary64: a significand of 53 bits, the exponent of the last bit not below
  \<open>-1074\<close>. (Results of \<open>2^1024\<close> and more are not binary64 numbers; where they
  can arise, the operation below says what happens.)
\<close>

definition float_round :: "rat \<Rightarrow> rat" where
  "float_round x =
     (if x = 0 then 0
      else (let e = max (binade x - 52) (- 1074) in
            of_int (round_half_even (x / 2 powi e)) * 2 powi e))"

datatype exn = EOFError | ZeroDivisionError | OverflowError

text \<open>What \<open>str(e)\<close> gives for each exception, as the interpreter raises it.\<close>

fun message :: "exn \<Rightarrow> string" where
  "message EOFError = ''EOF when reading a line''"
| "message ZeroDivisionError = ''division by zero''"
| "message OverflowError = ''integer division result too large for a float''"

text \<open>\<open>a / b\<close> for two integers: the quotient, correctly rounded.\<close>

definition truediv :: "int \<Rightarrow> int \<Rightarrow> exn + rat" where
  "truediv a b =
     (if b = 0 then Inl ZeroDivisionError
      else (let q = float_round (of_int a / of_int b) in
            if 2 ^ 1024 \<le> \<bar>q\<bar> then Inl OverflowError else Inr q))"



text \<open>
  \<open>f"{x:.1f}"\<close>: the number of tenths nearest to the float, the even one of two equally
  near, written with one digit after the point.
\<close>

definition one_decimal :: "nat \<Rightarrow> string" where
  "one_decimal t = str_nat (t div 10) @ ''.'' @ str_nat (t mod 10)"

definition format_1f :: "rat \<Rightarrow> string" where
  "format_1f x =
     (if x < 0 then ''-'' else '''') @ one_decimal (nat (round_half_even (\<bar>x\<bar> * 10)))"

subsection \<open>Students, input and output\<close>

record student =
  name :: string
  grades :: "int list"





subsection \<open>Adding a student\<close>



subsection \<open>Adding grades\<close>



subsection \<open>The report\<close>

text \<open>\<open>sum(student["grades"]) / len(student["grades"])\<close>.\<close>

definition average :: "student \<Rightarrow> exn + rat" where
  "average student = truediv (sum_list (grades student)) (int (length (grades student)))"





subsection \<open>The top performer\<close>

text \<open>
  \<open>max(students_with_grades, key=...)\<close>: the key of each student is computed in turn,
  and the student kept is replaced only by one with a greater key. An exception of a key
  ends the search.
\<close>

fun max_by_average :: "student \<Rightarrow> rat \<Rightarrow> student list \<Rightarrow> exn + student" where
  "max_by_average best k [] = Inr best"
| "max_by_average best k (student # rest) =
     (case average student of
        Inl e \<Rightarrow> Inl e
      | Inr a \<Rightarrow> if k < a then max_by_average student a rest else max_by_average best k rest)"

definition max_student :: "student list \<Rightarrow> exn + student" where
  "max_student students =
     (case average (hd students) of
        Inl e \<Rightarrow> Inl e
      | Inr a \<Rightarrow> max_by_average (hd students) a (tl students))"

text \<open>
  \<open>find_top_performer\<close> reads nothing and changes nothing: it gives the lines it prints.
  Every exception of the search is caught and reported.
\<close>

definition find_top_performer :: "student list \<Rightarrow> string list" where
  "find_top_performer students =
     (let students_with_grades = filter (\<lambda>s. grades s \<noteq> []) students in
      if students_with_grades = [] then [''No students with grades available.'']
      else
        (case max_student students_with_grades of
           Inl e \<Rightarrow> [''Error finding top performer: '' @ message e]
         | Inr top_student \<Rightarrow>
             (case average top_student of
                Inl e \<Rightarrow> [''Error finding top performer: '' @ message e]
              | Inr top_average \<Rightarrow>
                  [''The student with the highest average is '' @ student.name top_student
                   @ '' with a grade of '' @ format_1f top_average @ ''.''])))"

subsection \<open>The menu\<close>





subsection \<open>Notions of the specification\<close>

text \<open>Every grade of every student is an integer from 0 to 100.\<close>

definition grades_valid :: "student list \<Rightarrow> bool" where
  "grades_valid students = (\<forall>s \<in> set students. \<forall>g \<in> set (grades s). 0 \<le> g \<and> g \<le> 100)"




text \<open>A student for the examples.\<close>

abbreviation bob :: student where
  "bob \<equiv> \<lparr>name = ''Bob'', grades = [85, 86]\<rparr>"

text \<open>The arithmetic mean of the grades of a student, as a rational number.\<close>

definition mean :: "student \<Rightarrow> rat" where
  "mean s = of_int (sum_list (grades s)) / of_int (int (length (grades s)))"

text \<open>
  The first element of a list among those whose key is the highest: the element that no
  key exceeds, first in the order of the list.
\<close>

definition highest :: "('a \<Rightarrow> rat) \<Rightarrow> 'a list \<Rightarrow> 'a" where
  "highest key xs = hd (filter (\<lambda>s. \<forall>t \<in> set xs. key t \<le> key s) xs)"

text \<open>
  The students a list must hold for the float arithmetic to order the means as they
  are: every grade from 0 to 100, and fewer than \<open>2^23\<close> grades for each student.
\<close>

definition students_bounded :: "student list \<Rightarrow> bool" where
  "students_bounded students =
     (\<forall>s \<in> set students. (\<forall>g \<in> set (grades s). 0 \<le> g \<and> g \<le> 100) \<and> length (grades s) < 2 ^ 23)"




section \<open>Properties of the book collection service\<close>

subsection \<open>Rows and ids\<close>




lemma new_rowid_fresh: "new_rowid db \<notin> ids db"
proof
  assume a: "new_rowid db \<in> ids db"
  then have ne: "db \<noteq> []" by (auto simp: ids_def)
  have "new_rowid db \<le> Max (set (map id_col db))"
    using a by (intro Max_ge) (auto simp: ids_def)
  with ne show False by (simp add: new_rowid_def)
qed

subsection \<open>Requests that address an id\<close>



text \<open>The handler of an update, once the row is found: the row it builds and the table it leaves.\<close>

lemma update_book_found:
  assumes "find (\<lambda>b. id_col b = book_id) db = Some old"
  shows "update_book book_id u db =
    (Inr (overwritten u old), map (\<lambda>b. if id_col b = book_id then overwritten u old else b) db)"
proof -
  have "(case BookUpdate.year u of
           Some y \<Rightarrow> (case BookUpdate.author u of
                        Some a \<Rightarrow> (case BookUpdate.title u of
                                     Some t \<Rightarrow> old\<lparr>BookDB.title := t\<rparr> | None \<Rightarrow> old)\<lparr>BookDB.author := a\<rparr>
                      | None \<Rightarrow> (case BookUpdate.title u of
                                     Some t \<Rightarrow> old\<lparr>BookDB.title := t\<rparr> | None \<Rightarrow> old))\<lparr>BookDB.year := Some y\<rparr>
         | None \<Rightarrow> (case BookUpdate.author u of
                        Some a \<Rightarrow> (case BookUpdate.title u of
                                     Some t \<Rightarrow> old\<lparr>BookDB.title := t\<rparr> | None \<Rightarrow> old)\<lparr>BookDB.author := a\<rparr>
                      | None \<Rightarrow> (case BookUpdate.title u of
                                     Some t \<Rightarrow> old\<lparr>BookDB.title := t\<rparr> | None \<Rightarrow> old)))
        = overwritten u old"
    by (cases old) (simp add: overwritten_def split: option.splits)
  then show ?thesis
    unfolding update_book_def assms by (simp add: Let_def)
qed




subsection \<open>A year given as null\<close>

lemma validate_null_absent:
  "validate_BookUpdate (b\<lparr>body.year := Null\<rparr>) = validate_BookUpdate (b\<lparr>body.year := Absent\<rparr>)"
  by (simp add: validate_BookUpdate_def)



subsection \<open>Creation\<close>




subsection \<open>Which ids a request leaves in the table\<close>


lemma map_id_update: "map id_col (snd (update_book book_id u db)) = map id_col db"
proof (cases "find (\<lambda>b. id_col b = book_id) db")
  case None
  then show ?thesis by (simp add: update_book_def)
next
  case (Some old)
  then have "id_col old = book_id" by (auto simp: find_Some_iff)
  then have "id_col (overwritten u old) = book_id" by (simp add: overwritten_def)
  then have "map id_col (map (\<lambda>b. if id_col b = book_id then overwritten u old else b) db) = map id_col db"
    by (induction db) auto
  then show ?thesis by (simp add: update_book_found [OF Some])
qed


lemma rows_delete: "snd (delete_book book_id db) = filter (\<lambda>b. id_col b \<noteq> book_id) db"
proof (cases "find (\<lambda>b. id_col b = book_id) db")
  case None
  then have "\<forall>b \<in> set db. id_col b \<noteq> book_id" by (auto simp: find_None_iff)
  then have "filter (\<lambda>b. id_col b \<noteq> book_id) db = db" by (induction db) auto
  with None show ?thesis by (simp add: delete_book_def)
next
  case (Some old)
  then have "id_col old = book_id" by (auto simp: find_Some_iff)
  with Some show ?thesis by (simp add: delete_book_def)
qed


lemma distinct_serve: "distinct (map id_col db) \<Longrightarrow> distinct (map id_col (serve r db))"
proof (cases r)
  case (Create book)
  assume "distinct (map id_col db)"
  with new_rowid_fresh [of db] Create show ?thesis
    by (simp add: create_book_def Let_def ids_def)
next
  case (Update i u)
  assume "distinct (map id_col db)"
  with Update show ?thesis by (simp add: map_id_update)
next
  case (Delete i)
  assume "distinct (map id_col db)"
  with Delete show ?thesis by (simp add: rows_delete distinct_map_filter)
qed

lemma distinct_serve_all: "distinct (map id_col db) \<Longrightarrow> distinct (map id_col (serve_all rs db))"
  by (induction rs arbitrary: db) (auto simp: distinct_serve)


subsection \<open>Ids after a deletion\<close>





subsection \<open>Search\<close>










section \<open>Properties of the grade analyzer\<close>

subsection \<open>Adding a student\<close>





subsection \<open>The grade loop\<close>



























subsection \<open>Rounding\<close>

lemma round_half_even_error: "\<bar>of_int (round_half_even y) - y\<bar> \<le> 1 / 2"
proof -
  have "of_int \<lfloor>y\<rfloor> \<le> y" "y < of_int \<lfloor>y\<rfloor> + 1" by linarith+
  then show ?thesis
    by (auto simp: round_half_even_def Let_def)
qed

lemma binade_le:
  assumes "x \<noteq> 0"
  shows "2 powi (binade x) \<le> \<bar>x\<bar>"
proof -
  obtain a b where q: "quotient_of x = (a, b)" by (cases "quotient_of x")
  then have b: "0 < b" and x: "x = of_int a / of_int b"
    by (auto simp: quotient_of_denom_pos quotient_of_div)
  with assms have a: "0 < \<bar>a\<bar>" by auto
  let ?la = "bitlen \<bar>a\<bar>" and ?lb = "bitlen b"
  let ?k = "?la - ?lb"
  show ?thesis
  proof (cases "2 powi ?k \<le> \<bar>x\<bar>")
    case True
    then show ?thesis by (simp add: binade_def q)
  next
    case False
    then have bk: "binade x = ?k - 1" by (simp add: binade_def q)
    from bitlen_bounds [OF a] have A: "(2::int) ^ nat (?la - 1) \<le> \<bar>a\<bar>" by simp
    from bitlen_bounds [OF b] have B: "b < 2 ^ nat ?lb" by simp
    have la: "1 \<le> ?la" using a by (simp add: bitlen_alt_def)
    have lb: "0 \<le> ?lb" by (rule bitlen_nonneg)
    have "(2::rat) powi (?k - 1) = 2 powi (?la - 1) / 2 powi ?lb"
      by (simp add: power_int_diff)
    also have "\<dots> = 2 ^ nat (?la - 1) / 2 ^ nat ?lb"
      using la lb by (simp add: power_int_nonneg_exp)
    also have "\<dots> \<le> of_int \<bar>a\<bar> / 2 ^ nat ?lb"
    proof -
      have "(2::rat) ^ nat (?la - 1) = of_int (2 ^ nat (?la - 1))" by simp
      also have "\<dots> \<le> of_int \<bar>a\<bar>" using A by (simp only: of_int_le_iff)
      finally show ?thesis by (simp add: divide_right_mono)
    qed
    also have "\<dots> \<le> of_int \<bar>a\<bar> / of_int b"
    proof -
      have "(of_int b :: rat) \<le> of_int (2 ^ nat ?lb)" using B by (simp only: of_int_le_iff)
      then have "(of_int b :: rat) \<le> 2 ^ nat ?lb" by simp
      moreover have "(0::rat) < of_int b" using b by simp
      moreover have "(0::rat) \<le> of_int \<bar>a\<bar>" by simp
      ultimately show ?thesis by (intro divide_left_mono) (auto intro: mult_pos_pos)
    qed
    also have "\<dots> = \<bar>x\<bar>" using b by (simp add: x)
    finally show ?thesis by (simp add: bk)
  qed
qed

lemma binade_upper:
  assumes "x \<noteq> 0"
  shows "\<bar>x\<bar> < 2 powi (binade x + 1)"
proof -
  obtain a b where q: "quotient_of x = (a, b)" by (cases "quotient_of x")
  then have b: "0 < b" and x: "x = of_int a / of_int b"
    by (auto simp: quotient_of_denom_pos quotient_of_div)
  with assms have a: "0 < \<bar>a\<bar>" by auto
  let ?la = "bitlen \<bar>a\<bar>" and ?lb = "bitlen b"
  let ?k = "?la - ?lb"
  show ?thesis
  proof (cases "2 powi ?k \<le> \<bar>x\<bar>")
    case False
    then show ?thesis by (simp add: binade_def q)
  next
    case True
    then have bk: "binade x = ?k" by (simp add: binade_def q)
    from bitlen_bounds [OF a] have A: "\<bar>a\<bar> < 2 ^ nat ?la" by simp
    from bitlen_bounds [OF b] have B: "(2::int) ^ nat (?lb - 1) \<le> b" by simp
    have la: "0 \<le> ?la" by (rule bitlen_nonneg)
    have lb: "1 \<le> ?lb" using b by (simp add: bitlen_alt_def)
    have "\<bar>x\<bar> = of_int \<bar>a\<bar> / of_int b" using b by (simp add: x)
    also have "\<dots> < 2 ^ nat ?la / of_int b"
    proof -
      have "(of_int \<bar>a\<bar> :: rat) < of_int (2 ^ nat ?la)" using A by (simp only: of_int_less_iff)
      then have "(of_int \<bar>a\<bar> :: rat) < 2 ^ nat ?la" by simp
      moreover have "(0::rat) < of_int b" using b by simp
      ultimately show ?thesis by (simp add: divide_strict_right_mono)
    qed
    also have "\<dots> \<le> 2 ^ nat ?la / 2 ^ nat (?lb - 1)"
    proof -
      have "(of_int (2 ^ nat (?lb - 1)) :: rat) \<le> of_int b" using B by (simp only: of_int_le_iff)
      then have "(2::rat) ^ nat (?lb - 1) \<le> of_int b" by simp
      then show ?thesis by (intro divide_left_mono) (auto intro: mult_pos_pos simp: b)
    qed
    also have "\<dots> = 2 powi ?la / 2 powi (?lb - 1)"
      using la lb by (simp add: power_int_nonneg_exp)
    also have "\<dots> = 2 powi (?k + 1)"
      by (simp add: power_int_diff [symmetric] algebra_simps)
    finally show ?thesis by (simp add: bk)
  qed
qed

lemma binade_less:
  assumes "x \<noteq> 0" and "\<bar>x\<bar> < 2 powi n"
  shows "binade x < n"
proof (rule ccontr)
  assume "\<not> binade x < n"
  then have "(2::rat) powi n \<le> 2 powi (binade x)"
    by (intro power_int_increasing) auto
  with binade_le [OF assms(1)] assms(2) show False by linarith
qed

lemma float_round_error:
  assumes "\<bar>x\<bar> < 128"
  shows "\<bar>float_round x - x\<bar> \<le> 1 / 2 ^ 47"
proof (cases "x = 0")
  case True
  then show ?thesis by (simp add: float_round_def)
next
  case False
  define e where "e = max (binade x - 52) (- 1074)"
  have "\<bar>x\<bar> < 2 powi 7" using assms by simp
  from binade_less [OF False this] have e: "e \<le> - 46" by (simp add: e_def)
  have p: "(0::rat) < 2 powi e" by simp
  let ?y = "x / 2 powi e"
  have fr: "float_round x = of_int (round_half_even ?y) * 2 powi e"
    using False by (simp add: float_round_def e_def Let_def)
  have "float_round x - x = (of_int (round_half_even ?y) - ?y) * 2 powi e"
    using p by (simp add: fr algebra_simps)
  then have "\<bar>float_round x - x\<bar> = \<bar>of_int (round_half_even ?y) - ?y\<bar> * 2 powi e"
    using p by (simp add: abs_mult)
  also have "\<dots> \<le> (1 / 2) * 2 powi e"
    using round_half_even_error [of ?y] p by (intro mult_right_mono) auto
  also have "\<dots> \<le> (1 / 2) * 2 powi (- 46)"
    using e by (intro mult_left_mono power_int_increasing) auto
  also have "\<dots> = 1 / 2 ^ 47"
    by (simp add: power_int_minus_divide)
  finally show ?thesis .
qed

text \<open>The model on numbers whose binary64 values are known: 1/3, 0.35, 85.5, and the ties 0.25 and 0.75.\<close>

lemma float_examples:
  "truediv 1 3 = Inr (6004799503160661 / 18014398509481984)"
  "truediv 7 20 = Inr (3152519739159347 / 9007199254740992)"
  "truediv 171 2 = Inr (171 / 2)"
  "format_1f (3152519739159347 / 9007199254740992) = ''0.3''"
  "format_1f (1 / 4) = ''0.2''"
  "format_1f (3 / 4) = ''0.8''"
  by code_simp+

subsection \<open>The search for the highest key\<close>

lemma highest_skip_first:
  assumes "key best < key s"
  shows "highest key (best # s # ss) = highest key (s # ss)"
proof -
  define P where "P u \<longleftrightarrow> (\<forall>t \<in> set (best # s # ss). key t \<le> key u)" for u
  define Q where "Q u \<longleftrightarrow> (\<forall>t \<in> set (s # ss). key t \<le> key u)" for u
  have 1: "\<not> P best" using assms by (auto simp: P_def)
  have 2: "P u = Q u" if "u \<in> set (s # ss)" for u
    using assms that unfolding P_def Q_def by force
  have "highest key (best # s # ss) = hd (filter P (best # s # ss))"
    unfolding highest_def P_def ..
  also have "\<dots> = hd (filter P (s # ss))" using 1 by simp
  also have "filter P (s # ss) = filter Q (s # ss)" using 2 by (intro filter_cong) auto
  also have "hd (filter Q (s # ss)) = highest key (s # ss)"
    unfolding highest_def Q_def ..
  finally show ?thesis .
qed

lemma highest_skip_second:
  assumes "key s \<le> key best"
  shows "highest key (best # s # ss) = highest key (best # ss)"
proof -
  define P where "P u \<longleftrightarrow> (\<forall>t \<in> set (best # s # ss). key t \<le> key u)" for u
  define Q where "Q u \<longleftrightarrow> (\<forall>t \<in> set (best # ss). key t \<le> key u)" for u
  have pq: "P u = Q u" for u using assms unfolding P_def Q_def by force
  then have PQ: "P = Q" by auto
  have s: "Q s \<Longrightarrow> Q best"
  proof -
    assume q: "Q s"
    then have "key best \<le> key s" by (simp add: Q_def)
    with assms have "key s = key best" by simp
    with q show "Q best" by (simp add: Q_def)
  qed
  have "highest key (best # s # ss) = hd (filter Q (best # s # ss))"
    unfolding highest_def P_def [symmetric, abs_def] PQ ..
  also have "\<dots> = hd (filter Q (best # ss))" using s by auto
  also have "\<dots> = highest key (best # ss)"
    unfolding highest_def Q_def ..
  finally show ?thesis .
qed

lemma max_by_average_highest:
  assumes "\<forall>s \<in> set rest. average s = Inr (key s)"
  shows "max_by_average best (key best) rest = Inr (highest key (best # rest))"
  using assms
proof (induction rest arbitrary: best)
  case Nil
  show ?case by (simp add: highest_def)
next
  case (Cons s ss)
  then have a: "average s = Inr (key s)" and r: "\<forall>t \<in> set ss. average t = Inr (key t)"
    by simp_all
  show ?case
  proof (cases "key best < key s")
    case True
    with a Cons.IH [OF r, of s] show ?thesis by (simp add: highest_skip_first)
  next
    case False
    then have "key s \<le> key best" by simp
    from highest_skip_second [of key s best ss, OF this] False a Cons.IH [OF r, of best]
    show ?thesis by simp
  qed
qed

lemma max_student_highest:
  assumes "q \<noteq> []" and "\<forall>s \<in> set q. average s = Inr (key s)"
  shows "max_student q = Inr (highest key q)"
proof -
  from assms(1) obtain s ss where q: "q = s # ss" by (cases q) auto
  with assms(2) have "average s = Inr (key s)" "\<forall>t \<in> set ss. average t = Inr (key t)" by simp_all
  with max_by_average_highest [of ss key s] show ?thesis by (simp add: max_student_def q)
qed

lemma highest_mem:
  assumes "xs \<noteq> []"
  shows "highest key xs \<in> set xs \<and> (\<forall>t \<in> set xs. key t \<le> key (highest key xs))"
proof -
  define P where "P s \<longleftrightarrow> (\<forall>t \<in> set xs. key t \<le> key s)" for s
  have "finite (key ` set xs)" "key ` set xs \<noteq> {}" using assms by simp_all
  then have "Max (key ` set xs) \<in> key ` set xs" by (rule Max_in)
  then obtain m where m: "m \<in> set xs" "key m = Max (key ` set xs)" by auto
  then have "P m" by (simp add: P_def)
  with m(1) have "filter P xs \<noteq> []" by (auto simp: filter_empty_conv)
  then have "hd (filter P xs) \<in> set (filter P xs)" by (rule hd_in_set)
  then have "hd (filter P xs) \<in> set xs \<and> P (hd (filter P xs))" by simp
  moreover have "highest key xs = hd (filter P xs)" unfolding highest_def P_def ..
  ultimately show ?thesis by (simp add: P_def)
qed

lemma highest_first:
  assumes "xs \<noteq> []"
  shows "\<exists>us vs. xs = us @ highest key xs # vs \<and> (\<forall>u \<in> set us. key u < key (highest key xs))"
proof -
  define P where "P s \<longleftrightarrow> (\<forall>t \<in> set xs. key t \<le> key s)" for s
  have h: "highest key xs = hd (filter P xs)" unfolding highest_def P_def ..
  from highest_mem [OF assms, of key] have "P (highest key xs)" "highest key xs \<in> set xs"
    by (simp_all add: P_def)
  then have "filter P xs \<noteq> []" by (auto simp: filter_empty_conv)
  then obtain ys where "filter P xs = highest key xs # ys"
    unfolding h by (cases "filter P xs") auto
  then obtain us vs where x: "xs = us @ highest key xs # vs" and u: "\<forall>u \<in> set us. \<not> P u"
    by (auto simp: filter_eq_Cons_iff)
  have "key u < key (highest key xs)" if "u \<in> set us" for u
  proof -
    from u that obtain t where "t \<in> set xs" "key u < key t" by (auto simp: P_def not_le)
    with highest_mem [OF assms, of key] show ?thesis by force
  qed
  with x show ?thesis by blast
qed

lemma sum_list_range:
  "\<forall>g \<in> set gs. 0 \<le> g \<and> g \<le> (100::int) \<Longrightarrow> 0 \<le> sum_list gs \<and> sum_list gs \<le> 100 * int (length gs)"
  by (induction gs) auto

lemma mean_range:
  assumes "\<forall>g \<in> set (grades s). 0 \<le> g \<and> g \<le> 100" and "grades s \<noteq> []"
  shows "0 \<le> mean s \<and> mean s \<le> 100"
proof -
  let ?n = "int (length (grades s))"
  have n: "0 < ?n" using assms(2) by simp
  from sum_list_range [OF assms(1)] have "0 \<le> sum_list (grades s)" "sum_list (grades s) \<le> 100 * ?n"
    by simp_all
  then have "(0::rat) \<le> of_int (sum_list (grades s))" "(of_int (sum_list (grades s)) :: rat) \<le> of_int (100 * ?n)"
    by (simp_all only: of_int_le_iff of_int_0_le_iff)
  with n show ?thesis
    by (simp add: mean_def divide_le_eq)
qed

lemma average_valid:
  assumes "\<forall>g \<in> set (grades s). 0 \<le> g \<and> g \<le> 100" and "grades s \<noteq> []"
  shows "average s = Inr (float_round (mean s))"
proof -
  from mean_range [OF assms] have m: "0 \<le> mean s" "mean s \<le> 100" by simp_all
  then have "\<bar>mean s\<bar> < 128" by simp
  from float_round_error [OF this] have "\<bar>float_round (mean s) - mean s\<bar> \<le> 1 / 2 ^ 47" .
  also have "\<dots> \<le> (1::rat)" by simp
  finally have "\<bar>float_round (mean s)\<bar> \<le> 101" using m by linarith
  also have "\<dots> < (2::rat) ^ 1024" by simp
  finally have "\<not> 2 ^ 1024 \<le> \<bar>float_round (mean s)\<bar>" by simp
  then show ?thesis
    using assms(2) by (simp add: average_def truediv_def mean_def Let_def)
qed

lemma mean_separated:
  assumes "grades s \<noteq> []" and "grades t \<noteq> []"
    and "length (grades s) < 2 ^ 23" and "length (grades t) < 2 ^ 23"
    and "mean s < mean t"
  shows "1 / 2 ^ 46 < mean t - mean s"
proof -
  define a b c d where "a = sum_list (grades s)" and "b = int (length (grades s))"
    and "c = sum_list (grades t)" and "d = int (length (grades t))"
  have b: "0 < b" "b < 2 ^ 23" and d: "0 < d" "d < 2 ^ 23"
    using assms(1-4) by (simp_all add: b_def d_def)
  have ms: "mean s = of_int a / of_int b" and mt: "mean t = of_int c / of_int d"
    by (simp_all add: mean_def a_def b_def c_def d_def)
  from assms(5) have "(of_int a :: rat) * of_int d < of_int c * of_int b"
    using b d by (simp add: ms mt divide_simps mult.commute)
  then have "a * d < c * b" by (simp only: flip: of_int_mult)
  then have "1 \<le> c * b - a * d" by simp
  then have "(1::rat) \<le> of_int (c * b - a * d)" by (simp only: of_int_1_le_iff)
  then have one: "(1::rat) \<le> of_int c * of_int b - of_int a * of_int d" by simp
  have "b * d < 2 ^ 23 * 2 ^ 23"
    using b d by (intro mult_strict_mono) auto
  then have "b * d < 2 ^ 46" by simp
  then have "(of_int (b * d) :: rat) < of_int (2 ^ 46)" by (simp only: of_int_less_iff)
  then have bd: "(of_int b :: rat) * of_int d < 2 ^ 46" by simp
  have pos: "(0::rat) < of_int b * of_int d" using b d by simp
  have "mean t - mean s = (of_int c * of_int b - of_int a * of_int d) / (of_int b * of_int d)"
    using b d by (simp add: ms mt divide_simps)
  also have "\<dots> \<ge> 1 / (of_int b * of_int d)"
    using one pos by (simp add: divide_right_mono)
  finally have "1 / (of_int b * of_int d) \<le> mean t - mean s" .
  moreover have "(1::rat) / 2 ^ 46 < 1 / (of_int b * of_int d)"
    using bd pos by (simp add: divide_strict_left_mono)
  ultimately show ?thesis by linarith
qed

lemma float_round_mean_less:
  assumes "\<forall>g \<in> set (grades s). 0 \<le> g \<and> g \<le> 100" and "\<forall>g \<in> set (grades t). 0 \<le> g \<and> g \<le> 100"
    and "grades s \<noteq> []" and "grades t \<noteq> []"
    and "length (grades s) < 2 ^ 23" and "length (grades t) < 2 ^ 23"
    and "mean s < mean t"
  shows "float_round (mean s) < float_round (mean t)"
proof -
  from mean_range [OF assms(1,3)] have "\<bar>mean s\<bar> < 128" by simp
  from float_round_error [OF this] have s: "float_round (mean s) \<le> mean s + 1 / 2 ^ 47" by linarith
  from mean_range [OF assms(2,4)] have "\<bar>mean t\<bar> < 128" by simp
  from float_round_error [OF this] have t: "mean t - 1 / 2 ^ 47 \<le> float_round (mean t)" by linarith
  from mean_separated [OF assms(3,4,5,6,7)] have "1 / 2 ^ 46 < mean t - mean s" .
  moreover have "(1::rat) / 2 ^ 46 = 1 / 2 ^ 47 + 1 / 2 ^ 47" by simp
  ultimately show ?thesis using s t by linarith
qed

lemma float_round_mean_le_iff:
  assumes "\<forall>g \<in> set (grades s). 0 \<le> g \<and> g \<le> 100" and "\<forall>g \<in> set (grades t). 0 \<le> g \<and> g \<le> 100"
    and "grades s \<noteq> []" and "grades t \<noteq> []"
    and "length (grades s) < 2 ^ 23" and "length (grades t) < 2 ^ 23"
  shows "float_round (mean s) \<le> float_round (mean t) \<longleftrightarrow> mean s \<le> mean t"
proof
  assume "float_round (mean s) \<le> float_round (mean t)"
  with float_round_mean_less [OF assms(2,1,4,3,6,5)] show "mean s \<le> mean t"
    by (cases "mean t < mean s") auto
next
  assume "mean s \<le> mean t"
  then consider "mean s = mean t" | "mean s < mean t" by linarith
  then show "float_round (mean s) \<le> float_round (mean t)"
  proof cases
    case 1
    then show ?thesis by simp
  next
    case 2
    from float_round_mean_less [OF assms this] show ?thesis by simp
  qed
qed

lemma highest_float_mean:
  assumes "students_bounded q" and "\<forall>s \<in> set q. grades s \<noteq> []"
  shows "highest (\<lambda>s. float_round (mean s)) q = highest mean q"
proof -
  have "(\<forall>t \<in> set q. float_round (mean t) \<le> float_round (mean s)) \<longleftrightarrow> (\<forall>t \<in> set q. mean t \<le> mean s)"
    if "s \<in> set q" for s
  proof -
    have "float_round (mean t) \<le> float_round (mean s) \<longleftrightarrow> mean t \<le> mean s" if "t \<in> set q" for t
      using assms \<open>s \<in> set q\<close> that
      by (intro float_round_mean_le_iff) (auto simp: students_bounded_def)
    then show ?thesis by simp
  qed
  then have "filter (\<lambda>s. \<forall>t \<in> set q. float_round (mean t) \<le> float_round (mean s)) q
             = filter (\<lambda>s. \<forall>t \<in> set q. mean t \<le> mean s) q"
    by (intro filter_cong) auto
  then show ?thesis by (simp add: highest_def)
qed

subsection \<open>The top performer\<close>

lemma find_top_performer_valid:
  assumes "grades_valid students" and "filter (\<lambda>s. grades s \<noteq> []) students \<noteq> []"
  shows "find_top_performer students =
    [''The student with the highest average is ''
     @ student.name (highest (\<lambda>s. float_round (mean s)) (filter (\<lambda>s. grades s \<noteq> []) students))
     @ '' with a grade of ''
     @ format_1f (float_round (mean (highest (\<lambda>s. float_round (mean s))
                                       (filter (\<lambda>s. grades s \<noteq> []) students))))
     @ ''.'']"
proof -
  let ?q = "filter (\<lambda>s. grades s \<noteq> []) students"
  let ?top = "highest (\<lambda>s. float_round (mean s)) ?q"
  have a: "average s = Inr (float_round (mean s))" if "s \<in> set ?q" for s
    using that assms(1) by (intro average_valid) (auto simp: grades_valid_def)
  then have m: "max_student ?q = Inr ?top"
    using assms(2) by (intro max_student_highest) auto
  from highest_mem [OF assms(2)] have "?top \<in> set ?q" by blast
  from a [OF this] m assms(2) show ?thesis
    by (simp add: find_top_performer_def Let_def)
qed

text \<open>
  C3: \<open>find_top_performer\<close> reads nothing and changes nothing; its result is the line it
  prints. It considers the students that have a grade. When there is none it prints
  that no student with grades is available. Otherwise, every grade being from 0 to 100,
  it prints the name and the average, to one decimal place, of the student \<open>top\<close> whose
  average as the program computes it (the mean rounded to a float) is the highest, the
  first such student in the order of the list: no student with grades has a higher
  average, and every one before \<open>top\<close> has a lower one. When moreover every student has
  fewer than \<open>2^23\<close> grades, the same holds of the means themselves: \<open>top\<close> is the first
  student whose mean is the highest.
\<close>

theorem find_top_performer_highest:
  "(filter (\<lambda>s. grades s \<noteq> []) students = [] \<longrightarrow>
      find_top_performer students = [''No students with grades available.'']) \<and>
   (grades_valid students \<and> filter (\<lambda>s. grades s \<noteq> []) students \<noteq> [] \<longrightarrow>
      (let q = filter (\<lambda>s. grades s \<noteq> []) students;
           top = highest (\<lambda>s. float_round (mean s)) q in
       find_top_performer students =
         [''The student with the highest average is '' @ student.name top
          @ '' with a grade of '' @ format_1f (float_round (mean top)) @ ''.''] \<and>
       average top = Inr (float_round (mean top)) \<and>
       top \<in> set q \<and>
       (\<forall>t \<in> set q. float_round (mean t) \<le> float_round (mean top)) \<and>
       (\<exists>us vs. q = us @ top # vs \<and>
                (\<forall>u \<in> set us. float_round (mean u) < float_round (mean top))))) \<and>
   (students_bounded students \<and> filter (\<lambda>s. grades s \<noteq> []) students \<noteq> [] \<longrightarrow>
      (let q = filter (\<lambda>s. grades s \<noteq> []) students; top = highest mean q in
       find_top_performer students =
         [''The student with the highest average is '' @ student.name top
          @ '' with a grade of '' @ format_1f (float_round (mean top)) @ ''.''] \<and>
       top \<in> set q \<and>
       (\<forall>t \<in> set q. mean t \<le> mean top) \<and>
       (\<exists>us vs. q = us @ top # vs \<and> (\<forall>u \<in> set us. mean u < mean top))))"
proof -
  let ?q = "filter (\<lambda>s. grades s \<noteq> []) students"
  let ?f = "\<lambda>s. float_round (mean s)"
  have 1: "find_top_performer students = [''No students with grades available.'']" if "?q = []"
    using that by (simp add: find_top_performer_def)
  have v: "grades_valid students" if "students_bounded students"
    using that by (auto simp: grades_valid_def students_bounded_def)
  have 2: "average (highest ?f ?q) = Inr (float_round (mean (highest ?f ?q)))"
    if "grades_valid students" "?q \<noteq> []"
  proof -
    from highest_mem [OF that(2), of ?f] have "highest ?f ?q \<in> set ?q" by blast
    with that(1) show ?thesis by (intro average_valid) (auto simp: grades_valid_def)
  qed
  have 3: "highest ?f ?q = highest mean ?q" if "students_bounded students"
    using that by (intro highest_float_mean) (auto simp: students_bounded_def)
  have A: "grades_valid students \<and> ?q \<noteq> [] \<longrightarrow>
      (let q = ?q; top = highest ?f q in
       find_top_performer students =
         [''The student with the highest average is '' @ student.name top
          @ '' with a grade of '' @ format_1f (float_round (mean top)) @ ''.''] \<and>
       average top = Inr (float_round (mean top)) \<and>
       top \<in> set q \<and>
       (\<forall>t \<in> set q. float_round (mean t) \<le> float_round (mean top)) \<and>
       (\<exists>us vs. q = us @ top # vs \<and>
                (\<forall>u \<in> set us. float_round (mean u) < float_round (mean top))))"
  proof
    assume h: "grades_valid students \<and> ?q \<noteq> []"
    then have g: "grades_valid students" and n: "?q \<noteq> []" by simp_all
    from find_top_performer_valid [OF g n] 2 [OF g n] highest_mem [OF n, of ?f]
      highest_first [OF n, of ?f]
    show "let q = ?q; top = highest ?f q in
       find_top_performer students =
         [''The student with the highest average is '' @ student.name top
          @ '' with a grade of '' @ format_1f (float_round (mean top)) @ ''.''] \<and>
       average top = Inr (float_round (mean top)) \<and>
       top \<in> set q \<and>
       (\<forall>t \<in> set q. float_round (mean t) \<le> float_round (mean top)) \<and>
       (\<exists>us vs. q = us @ top # vs \<and>
                (\<forall>u \<in> set us. float_round (mean u) < float_round (mean top)))"
      unfolding Let_def by blast
  qed
  have B: "students_bounded students \<and> ?q \<noteq> [] \<longrightarrow>
      (let q = ?q; top = highest mean q in
       find_top_performer students =
         [''The student with the highest average is '' @ student.name top
          @ '' with a grade of '' @ format_1f (float_round (mean top)) @ ''.''] \<and>
       top \<in> set q \<and>
       (\<forall>t \<in> set q. mean t \<le> mean top) \<and>
       (\<exists>us vs. q = us @ top # vs \<and> (\<forall>u \<in> set us. mean u < mean top)))"
  proof
    assume h: "students_bounded students \<and> ?q \<noteq> []"
    then have b: "students_bounded students" and n: "?q \<noteq> []" by simp_all
    from find_top_performer_valid [OF v [OF b] n] have
      "find_top_performer students =
         [''The student with the highest average is '' @ student.name (highest mean ?q)
          @ '' with a grade of '' @ format_1f (float_round (mean (highest mean ?q))) @ ''.'']"
      unfolding 3 [OF b] .
    with highest_mem [OF n, of mean] highest_first [OF n, of mean]
    show "let q = ?q; top = highest mean q in
       find_top_performer students =
         [''The student with the highest average is '' @ student.name top
          @ '' with a grade of '' @ format_1f (float_round (mean top)) @ ''.''] \<and>
       top \<in> set q \<and>
       (\<forall>t \<in> set q. mean t \<le> mean top) \<and>
       (\<exists>us vs. q = us @ top # vs \<and> (\<forall>u \<in> set us. mean u < mean top))"
      unfolding Let_def by blast
  qed
  from 1 A B show ?thesis by blast
qed

theorem find_top_performer_highest_witness:
  "find_top_performer [\<lparr>name = ''Al'', grades = [70]\<rparr>, bob, \<lparr>name = ''Cy'', grades = [86, 85]\<rparr>]
     = [''The student with the highest average is Bob with a grade of 85.5.''] \<and>
   find_top_performer [\<lparr>name = ''Al'', grades = []\<rparr>]
     = [''No students with grades available.'']"
proof -
  have r: "float_round 70 = 70" "float_round (171 / 2) = 171 / 2" by code_simp+
  have f: "format_1f (171 / 2) = ''85.5''" by code_simp
  have m: "mean \<lparr>name = ''Al'', grades = [70]\<rparr> = 70" "mean bob = 171 / 2"
    "mean \<lparr>name = ''Cy'', grades = [86, 85]\<rparr> = 171 / 2"
    by (simp_all add: mean_def)
  show ?thesis
    using find_top_performer_highest [of "[\<lparr>name = ''Al'', grades = [70]\<rparr>, bob, \<lparr>name = ''Cy'', grades = [86, 85]\<rparr>]"]
      find_top_performer_highest [of "[\<lparr>name = ''Al'', grades = []\<rparr>]"]
    by (simp add: students_bounded_def grades_valid_def highest_def Let_def m r f)
qed

subsection \<open>The report\<close>













end
